theory Spec2Isabelle
  imports Main "HOL-Library.Word"
begin

section \<open>Common types\<close>

text \<open>
  A C++ \<open>int\<close> is a 32-bit two's complement value: a \<open>32 word\<close>, read with \<open>sint\<close> and
  compared with the signed order \<open><s\<close>. Objects live at addresses; a pointer is an
  \<open>addr option\<close>, \<open>None\<close> being \<open>nullptr\<close>.
\<close>

type_synonym cint = "32 word"
type_synonym addr = nat

text \<open>
  The exceptions the source throws (\<open>std::runtime_error\<close>, \<open>std::logic_error\<close>), each with
  its message, and a value for behaviour the language leaves undefined.
\<close>

datatype error =
    runtime_error string
  | logic_error string
  | undefined_behaviour string

datatype LogSeverity = lsTRACE | lsDEBUG | lsINFO | lsWARNING

text \<open>What a \<open>WriteLog\<close> statement streams, with the values it formats.\<close>

datatype log_msg =
    WalError string cint
  | WalFrames string cint cint
  | SubDrop
  | SubPush
  | SubStart
  | SubCall string
  | SubException string

type_synonym log_line = "LogSeverity \<times> log_msg"

text \<open>
  A job handed to \<open>JobQueue::addJob\<close>: its type, its name and the object whose member
  function it is bound to. The queue keeps them in the order they were added.
\<close>

datatype JobType = jtWAL | jtCLIENT

type_synonym job = "JobType \<times> string \<times> addr"

definition addJob :: "JobType \<Rightarrow> string \<Rightarrow> addr \<Rightarrow> job list \<Rightarrow> job list" where
  "addJob t name target q = q @ [(t, name, target)]"

section \<open>SociDB.cpp: the WAL checkpointer\<close>

definition checkpointPageCount :: cint where
  "checkpointPageCount = 1000"

text \<open>Result codes of sqlite3.h.\<close>

definition SQLITE_OK :: cint where
  "SQLITE_OK = 0"

definition SQLITE_LOCKED :: cint where
  "SQLITE_LOCKED = 6"

text \<open>
  The fields of \<open>WALCheckpointer\<close>, written without the trailing underscore of the
  source's member names. \<open>conn\<close> is the address of the sqlite3 connection.
  \<open>mutex\<close> has no field: each function below that the source runs under the lock is one
  atomic step. \<open>jobQueue\<close> is a reference, and the queue it names is passed along.
\<close>

record WALCheckpointer =
  conn :: addr
  running :: bool

text \<open>
  \<open>runCheckpoint\<close>, lines 227 to 239: the threshold test and the test-and-set of
  \<open>running\<close> under the lock. The result says whether control reaches \<open>addJob\<close>.
\<close>

definition runCheckpoint_guard :: "cint \<Rightarrow> WALCheckpointer \<Rightarrow> bool \<times> WALCheckpointer" where
  "runCheckpoint_guard pages c =
     (if pages <s checkpointPageCount then (False, c)
      else if running c then (False, c)
      else (True, c\<lparr>running := True\<rparr>))"

text \<open>\<open>runCheckpoint\<close>, lines 241 and 242: the job bound to \<open>checkpoint\<close> of this object.\<close>

definition runCheckpoint_submit :: "addr \<Rightarrow> job list \<Rightarrow> job list" where
  "runCheckpoint_submit this q = addJob jtWAL ''WAL'' this q"

definition runCheckpoint ::
  "addr \<Rightarrow> string \<Rightarrow> cint \<Rightarrow> WALCheckpointer \<times> job list \<Rightarrow> WALCheckpointer \<times> job list" where
  "runCheckpoint this db pages = (\<lambda>(c, q).
     case runCheckpoint_guard pages c of
       (proceed, c') \<Rightarrow> if proceed then (c', runCheckpoint_submit this q) else (c', q))"

text \<open>
  \<open>checkpoint\<close>: the status \<open>ret\<close> and the two counters are what
  \<open>sqlite3_wal_checkpoint_v2\<close> hands back, \<open>fname\<close> what \<open>sqlite3_db_filename\<close> does.
  One line is logged, then \<open>running\<close> is cleared under the lock.
\<close>

definition checkpoint ::
  "string \<Rightarrow> cint \<times> cint \<times> cint \<Rightarrow> WALCheckpointer \<times> log_line list
     \<Rightarrow> WALCheckpointer \<times> log_line list" where
  "checkpoint fname = (\<lambda>(ret, log, ckpt) (c, journal).
     (c\<lparr>running := False\<rparr>,
      journal @
        [if ret \<noteq> SQLITE_OK
         then (if ret = SQLITE_LOCKED then lsTRACE else lsWARNING, WalError fname ret)
         else (lsTRACE, WalFrames fname log ckpt)]))"


subsection \<open>The coordinator among its threads\<close>

text \<open>
  Writer threads call \<open>runCheckpoint\<close> through the hook, and the job queue's workers run
  \<open>checkpoint\<close>, all on one coordinator. The lock makes lines 235 to 238 and lines 278 to
  279 atomic; between them the threads interleave. The state therefore counts, beside
  the object itself, the threads that have left the locked block with \<open>running\<close> just set
  and have not yet reached \<open>addJob\<close> (\<open>entered\<close>), the jobs waiting in the queue, and the
  jobs that a worker has started and that have not yet cleared \<open>running\<close> (\<open>executing\<close>);
  clearing it is the last statement of \<open>checkpoint\<close>.

  The thread that the constructor starts sits in \<open>run\<close>, which calls \<open>checkpoint\<close> only
  when it is woken and not asked to exit. The source wakes it nowhere but through
  \<open>stopThread\<close>, so that thread has no step here.
\<close>

record coordinator_sys =
  obj :: WALCheckpointer
  entered :: nat
  queue :: "job list"
  executing :: nat
  journal :: "log_line list"

text \<open>
  The steps: a notification runs the guard; a thread that passed it adds its job; a
  worker takes the oldest job; a running job finishes \<open>checkpoint\<close> with what sqlite
  reported. A step that has nothing to act on leaves the state as it is.
\<close>

datatype coordinator_event =
    Notify string cint
  | Submit
  | JobStart
  | JobFinish string "cint \<times> cint \<times> cint"

fun coordinator_step :: "addr \<Rightarrow> coordinator_event \<Rightarrow> coordinator_sys \<Rightarrow> coordinator_sys" where
  "coordinator_step this (Notify db pages) s =
     (case runCheckpoint_guard pages (obj s) of
        (proceed, c') \<Rightarrow>
          s\<lparr>obj := c', entered := (if proceed then Suc (entered s) else entered s)\<rparr>)"
| "coordinator_step this Submit s =
     (if 0 < entered s
      then s\<lparr>entered := entered s - 1, queue := runCheckpoint_submit this (queue s)\<rparr>
      else s)"
| "coordinator_step this JobStart s =
     (case queue s of
        [] \<Rightarrow> s
      | j # q \<Rightarrow> s\<lparr>queue := q, executing := Suc (executing s)\<rparr>)"
| "coordinator_step this (JobFinish fname res) s =
     (if 0 < executing s
      then (case checkpoint fname res (obj s, journal s) of
              (c', jl) \<Rightarrow> s\<lparr>obj := c', executing := executing s - 1, journal := jl\<rparr>)
      else s)"

definition coordinator_run ::
  "addr \<Rightarrow> coordinator_event list \<Rightarrow> coordinator_sys \<Rightarrow> coordinator_sys" where
  "coordinator_run this evs s = foldl (\<lambda>s e. coordinator_step this e s) s evs"

text \<open>The coordinator as its constructor leaves it: idle, nothing queued.\<close>

definition coordinator_init :: "addr \<Rightarrow> coordinator_sys" where
  "coordinator_init c =
     \<lparr>obj = \<lparr>conn = c, running = False\<rparr>,
      entered = 0, queue = [], executing = 0, journal = []\<rparr>"

definition is_JobFinish :: "coordinator_event \<Rightarrow> bool" where
  "is_JobFinish e = (case e of JobFinish fname res \<Rightarrow> True | _ \<Rightarrow> False)"

text \<open>
  What holds the jobs at one: whoever is between the locked block and the end of
  \<open>checkpoint\<close> is alone there, and \<open>running\<close> says whether anyone is.
\<close>

definition coordinator_inv :: "coordinator_sys \<Rightarrow> bool" where
  "coordinator_inv s =
     (entered s + length (queue s) + executing s = (if running (obj s) then 1 else 0))"


subsection \<open>Objects, connections and the hook\<close>

text \<open>
  The part of the process the checkpointer touches: the live \<open>WALCheckpointer\<close> objects
  by address, for each sqlite3 connection the context pointer last given to
  \<open>sqlite3_wal_hook\<close> together with \<open>sqliteWALHook\<close>, the job queue, and the objects
  whose \<open>beast::Thread\<close> is started.
\<close>

record world =
  heap :: "addr \<rightharpoonup> WALCheckpointer"
  wal_hook :: "addr \<rightharpoonup> addr option"
  jobQueue :: "job list"
  threads :: "addr set"

text \<open>
  \<open>sqliteWALHook\<close>: a null context pointer throws. A pointer to an object that is no
  longer alive is dereferenced by the source all the same, which is undefined.
\<close>

definition sqliteWALHook ::
  "addr option \<Rightarrow> string \<Rightarrow> cint \<Rightarrow> world \<Rightarrow> error + (cint \<times> world)" where
  "sqliteWALHook cp dbName walSize w =
     (case cp of
        None \<Rightarrow> Inl (logic_error ''Didn't get a WALCheckpointer'')
      | Some this \<Rightarrow>
          (case heap w this of
             None \<Rightarrow> Inl (undefined_behaviour ''WALCheckpointer used after its lifetime'')
           | Some c \<Rightarrow>
               (case runCheckpoint this dbName walSize (c, jobQueue w) of
                  (c', q') \<Rightarrow>
                    Inr (SQLITE_OK, w\<lparr>heap := (heap w)(this \<mapsto> c'), jobQueue := q'\<rparr>))))"

text \<open>
  The constructor builds the object at \<open>this\<close> on connection \<open>cn\<close>: \<open>running\<close> starts
  false, \<open>startThread\<close>, then \<open>sqlite3_wal_hook (&conn, &sqliteWALHook, this)\<close>.
\<close>

definition WALCheckpointer_ctor :: "addr \<Rightarrow> addr \<Rightarrow> world \<Rightarrow> world" where
  "WALCheckpointer_ctor this cn w =
     w\<lparr>heap := (heap w)(this \<mapsto> \<lparr>conn = cn, running = False\<rparr>),
       threads := insert this (threads w),
       wal_hook := (wal_hook w)(cn \<mapsto> Some this)\<rparr>"

text \<open>The destructor: \<open>stopThread\<close>, and the object's lifetime ends.\<close>

definition WALCheckpointer_dtor :: "addr \<Rightarrow> world \<Rightarrow> world" where
  "WALCheckpointer_dtor this w =
     w\<lparr>threads := threads w - {this}, heap := (heap w)(this := None)\<rparr>"

text \<open>
  sqlite's side of the hook, as sqlite3.h documents it: after a commit in WAL mode the
  registered callback, if there is one, is called with the registered context pointer.
\<close>

definition wal_growth :: "addr \<Rightarrow> string \<Rightarrow> cint \<Rightarrow> world \<Rightarrow> error + world" where
  "wal_growth cn dbName pages w =
     (case wal_hook w cn of
        None \<Rightarrow> Inr w
      | Some cp \<Rightarrow>
          (case sqliteWALHook cp dbName pages w of
             Inl e \<Rightarrow> Inl e
           | Inr (rc, w') \<Rightarrow> Inr w'))"

text \<open>
  A \<open>soci::session\<close> as \<open>getConnection\<close> sees it: \<open>get_backend\<close> gives no backend, a
  \<open>sqlite3_session_backend\<close> with its \<open>conn_\<close> pointer, or a backend of another type.
\<close>

datatype session_backend = sqlite3_session_backend "addr option" | other_backend

type_synonym session = "session_backend option"

definition getConnection :: "session \<Rightarrow> error + addr option" where
  "getConnection s =
     (let result = (case s of Some (sqlite3_session_backend c) \<Rightarrow> c | _ \<Rightarrow> None)
      in if result = None then Inl (logic_error ''Didn't get a database connection.'')
         else Inr result)"

text \<open>
  \<open>makeCheckpointer\<close>: \<open>fresh\<close> is the address \<open>make_unique\<close> allocates. The result is the
  \<open>unique_ptr\<close>, \<open>None\<close> when empty.
\<close>

definition makeCheckpointer ::
  "addr \<Rightarrow> session \<Rightarrow> world \<Rightarrow> error + (addr option \<times> world)" where
  "makeCheckpointer fresh s w =
     (case getConnection s of
        Inl e \<Rightarrow> Inl e
      | Inr None \<Rightarrow> Inr (None, w)
      | Inr (Some cn) \<Rightarrow> Inr (Some fresh, WALCheckpointer_ctor fresh cn w))"

text \<open>
  A session yields a usable connection when its backend is the sqlite3 one and holds a
  connection. \<open>world0\<close> is a process with no checkpointer yet.
\<close>

definition usable :: "session \<Rightarrow> bool" where
  "usable s = (case s of Some (sqlite3_session_backend (Some cn)) \<Rightarrow> True | _ \<Rightarrow> False)"

definition world0 :: world where
  "world0 = \<lparr>heap = Map.empty, wal_hook = Map.empty, jobQueue = [], threads = {}\<rparr>"


section \<open>RPCSub: the subscriber and its event queue\<close>

text \<open>
  The members of \<open>RPCSub\<close>. \<open>mSeq\<close> and the first component of a queued pair are \<open>int\<close>
  (\<open>std::pair<int, Json::Value>\<close> in \<open>sendThread\<close>); the payload type is left open.
  \<open>mDeque\<close> is the deque, front first. \<open>mLock\<close> has no field: \<open>send\<close> and the locked
  block of \<open>sendThread\<close> are atomic steps.
\<close>

record 'v RPCSub =
  mUrl :: string
  mIp :: string
  mPort :: cint
  mSSL :: bool
  mUsername :: string
  mPassword :: string
  mPath :: string
  mSeq :: cint
  mSending :: bool
  mDeque :: "(cint \<times> 'v) list"

text \<open>
  The constructor. \<open>parseUrl\<close> is not part of the source at hand and is a parameter: it
  gives the scheme, the address, the port and the path, or \<open>None\<close> where the C++ function
  returns false. The line the constructor logs at the end is left out.
\<close>

definition RPCSub_ctor ::
  "(string \<Rightarrow> (string \<times> string \<times> cint \<times> string) option)
     \<Rightarrow> string \<Rightarrow> string \<Rightarrow> string \<Rightarrow> error + 'v RPCSub" where
  "RPCSub_ctor parseUrl strUrl strUsername strPassword =
     (case parseUrl strUrl of
        None \<Rightarrow> Inl (runtime_error ''Failed to parse url.'')
      | Some (strScheme, ip, port, path) \<Rightarrow>
          (case (if strScheme = ''https'' then Inr True
                 else if strScheme \<noteq> ''http''
                   then Inl (runtime_error ''Only http and https is supported.'')
                 else Inr False) of
             Inl e \<Rightarrow> Inl e
           | Inr ssl \<Rightarrow>
               Inr \<lparr>mUrl = strUrl, mIp = ip,
                    mPort = (if port <s 0 then (if ssl then 443 else 80) else port),
                    mSSL = ssl, mUsername = strUsername, mPassword = strPassword,
                    mPath = path, mSeq = 1, mSending = False, mDeque = []\<rparr>))"

text \<open>\<open>std::deque::pop_back\<close>: undefined on an empty deque.\<close>

definition pop_back :: "'a list \<Rightarrow> error + 'a list" where
  "pop_back xs =
     (if xs = [] then Inl (undefined_behaviour ''pop_back on an empty deque'')
      else Inr (butlast xs))"

text \<open>
  \<open>send\<close>, on the object, the job queue and the log. \<open>eventQueueMax\<close> is declared outside
  the source at hand and is a parameter. \<open>mSeq++\<close> wraps around at the top of \<open>int\<close>
  (in C++ that overflow is undefined; two's complement machines wrap).
\<close>

definition send ::
  "nat \<Rightarrow> addr \<Rightarrow> 'v \<Rightarrow> bool \<Rightarrow> 'v RPCSub \<times> job list \<times> log_line list
     \<Rightarrow> error + ('v RPCSub \<times> job list \<times> log_line list)" where
  "send eventQueueMax this jvObj broadcast = (\<lambda>(s, q, lg).
     case (if eventQueueMax \<le> length (mDeque s)
           then (case pop_back (mDeque s) of
                   Inl e \<Rightarrow> Inl e
                 | Inr d \<Rightarrow> Inr (d, lg @ [(lsWARNING, SubDrop)]))
           else Inr (mDeque s, lg)) of
       Inl e \<Rightarrow> Inl e
     | Inr (d, lg1) \<Rightarrow>
         (let lg2 = lg1 @ [(if broadcast then lsDEBUG else lsINFO, SubPush)];
              s1 = s\<lparr>mDeque := d @ [(mSeq s, jvObj)], mSeq := mSeq s + 1\<rparr>
          in if \<not> mSending s1
             then Inr (s1\<lparr>mSending := True\<rparr>,
                       addJob jtCLIENT ''RPCSub::sendThread'' this q,
                       lg2 @ [(lsINFO, SubStart)])
             else Inr (s1, q, lg2)))"

text \<open>
  What \<open>RPCCall::fromNetwork\<close> does with an event: it returns, or it throws a
  \<open>std::exception\<close> with this \<open>what ()\<close>.
\<close>

datatype outcome = Delivered | Threw string

text \<open>
  One pass through the body of the \<open>do\<close> loop of \<open>sendThread\<close>, on the object, the events
  handed to \<open>RPCCall::fromNetwork\<close> so far (each is the payload with its \<open>seq\<close> set) and
  the log. The first component of the result is \<open>bSend\<close>.
\<close>

definition sendThread_body ::
  "(cint \<times> 'v \<Rightarrow> outcome) \<Rightarrow> 'v RPCSub \<times> (cint \<times> 'v) list \<times> log_line list
     \<Rightarrow> bool \<times> 'v RPCSub \<times> (cint \<times> 'v) list \<times> log_line list" where
  "sendThread_body fromNetwork = (\<lambda>(s, wire, lg).
     case mDeque s of
       [] \<Rightarrow> (False, s\<lparr>mSending := False\<rparr>, wire, lg)
     | pEvent # rest \<Rightarrow>
         (True, s\<lparr>mDeque := rest\<rparr>, wire @ [pEvent],
          lg @ [(lsINFO, SubCall (mIp s))] @
            (case fromNetwork pEvent of
               Delivered \<Rightarrow> []
             | Threw what \<Rightarrow> [(lsINFO, SubException what)])))"

text \<open>The loop, when nothing is pushed while it runs.\<close>

function sendThread ::
  "(cint \<times> 'v \<Rightarrow> outcome) \<Rightarrow> 'v RPCSub \<times> (cint \<times> 'v) list \<times> log_line list
     \<Rightarrow> 'v RPCSub \<times> (cint \<times> 'v) list \<times> log_line list" where
  "sendThread fromNetwork st =
     (case sendThread_body fromNetwork st of
        (bSend, st') \<Rightarrow> if bSend then sendThread fromNetwork st' else st')"
  by pat_completeness auto
termination
  by (relation "measure (\<lambda>(f, s, wire, lg). length (mDeque s))")
    (auto simp: sendThread_body_def split: list.splits)


subsection \<open>The subscriber among its threads\<close>

text \<open>
  Producers call \<open>send\<close>; the job queue starts the \<open>sendThread\<close> jobs that \<open>send\<close> added,
  and a started job goes round its loop while other threads push. The state holds the
  object, the jobs added and not yet started, the number of \<open>sendThread\<close> calls in
  progress (\<open>draining\<close>), the events handed to \<open>RPCCall::fromNetwork\<close> in the order of the
  calls (\<open>wire\<close>), and the log.
\<close>

record 'v sub_sys =
  rpcsub :: "'v RPCSub"
  subJobs :: "job list"
  draining :: nat
  wire :: "(cint \<times> 'v) list"
  sublog :: "log_line list"

text \<open>
  The steps: a push; the start of a queued job; one pass of a running job through the
  loop body, with what \<open>RPCCall::fromNetwork\<close> does to the event it takes. A pass that
  finds the deque empty ends that job.
\<close>

datatype 'v sub_event = Push 'v bool | WorkerStart | Iterate outcome

fun sub_step :: "nat \<Rightarrow> addr \<Rightarrow> 'v sub_event \<Rightarrow> 'v sub_sys \<Rightarrow> error + 'v sub_sys" where
  "sub_step eventQueueMax this (Push jvObj broadcast) s =
     (case send eventQueueMax this jvObj broadcast (rpcsub s, subJobs s, sublog s) of
        Inl e \<Rightarrow> Inl e
      | Inr (r, q, lg) \<Rightarrow> Inr (s\<lparr>rpcsub := r, subJobs := q, sublog := lg\<rparr>))"
| "sub_step eventQueueMax this WorkerStart s =
     (case subJobs s of
        [] \<Rightarrow> Inr s
      | j # q \<Rightarrow> Inr (s\<lparr>subJobs := q, draining := Suc (draining s)\<rparr>))"
| "sub_step eventQueueMax this (Iterate out) s =
     (if 0 < draining s
      then (case sendThread_body (\<lambda>ev. out) (rpcsub s, wire s, sublog s) of
              (bSend, r, w, lg) \<Rightarrow>
                Inr (s\<lparr>rpcsub := r,
                       draining := (if bSend then draining s else draining s - 1),
                       wire := w, sublog := lg\<rparr>))
      else Inr s)"

fun sub_run :: "nat \<Rightarrow> addr \<Rightarrow> 'v sub_event list \<Rightarrow> 'v sub_sys \<Rightarrow> error + 'v sub_sys" where
  "sub_run eventQueueMax this [] s = Inr s"
| "sub_run eventQueueMax this (e # es) s =
     (case sub_step eventQueueMax this e s of
        Inl err \<Rightarrow> Inl err
      | Inr s' \<Rightarrow> sub_run eventQueueMax this es s')"

definition sub_init :: "'v RPCSub \<Rightarrow> 'v sub_sys" where
  "sub_init r = \<lparr>rpcsub = r, subJobs = [], draining = 0, wire = [], sublog = []\<rparr>"

fun is_Push :: "'v sub_event \<Rightarrow> bool" where
  "is_Push (Push jvObj broadcast) = True"
| "is_Push e = False"

definition pushes :: "'v sub_event list \<Rightarrow> nat" where
  "pushes evs = length (filter is_Push evs)"

text \<open>
  For stating what a run leaves behind: the payloads \<open>vs\<close> with the sequence numbers the
  counter hands out from \<open>m\<close> on; of a list of entries, the first \<open>cap - 1\<close> and the last;
  and, of a run's result, the sequence numbers in the deque and on the wire as the
  \<open>int\<close>s they are, and the number of the entry pushed last.
\<close>

definition stamped :: "cint \<Rightarrow> 'v list \<Rightarrow> (cint \<times> 'v) list" where
  "stamped m vs = zip (map (\<lambda>i. m + word_of_nat i) [0..<length vs]) vs"

definition retained :: "nat \<Rightarrow> 'a list \<Rightarrow> 'a list" where
  "retained cap xs = (if length xs \<le> cap then xs else take (cap - 1) xs @ [last xs])"

definition queued_seqs :: "error + 'v sub_sys \<Rightarrow> int list option" where
  "queued_seqs res =
     (case res of Inl e \<Rightarrow> None | Inr s \<Rightarrow> Some (map (\<lambda>ev. sint (fst ev)) (mDeque (rpcsub s))))"

definition wire_seqs :: "error + 'v sub_sys \<Rightarrow> int list option" where
  "wire_seqs res =
     (case res of Inl e \<Rightarrow> None | Inr s \<Rightarrow> Some (map (\<lambda>ev. sint (fst ev)) (wire s)))"

definition newest_seq :: "error + 'v sub_sys \<Rightarrow> int option" where
  "newest_seq res =
     (case res of
        Inl e \<Rightarrow> None
      | Inr s \<Rightarrow>
          (if mDeque (rpcsub s) = [] then None
           else Some (sint (fst (last (mDeque (rpcsub s)))))))"

definition queued :: "error + 'v sub_sys \<Rightarrow> (cint \<times> 'v) list option" where
  "queued res = (case res of Inl e \<Rightarrow> None | Inr s \<Rightarrow> Some (mDeque (rpcsub s)))"


text \<open>
  The invariant of the subscriber's runs, \<open>n\<close> being the number of pushes so far: the
  counter is one ahead; what has gone to the wire followed by what is queued carries
  strictly increasing numbers between 1 and \<open>n\<close>; and a \<open>sendThread\<close> job is queued or
  running exactly when \<open>mSending\<close> is set, and then only one.
\<close>

definition sub_inv :: "nat \<Rightarrow> 'v sub_sys \<Rightarrow> bool" where
  "sub_inv n s =
     (unat (mSeq (rpcsub s)) = Suc n \<and>
      sorted_wrt (<) (map (\<lambda>ev. unat (fst ev)) (wire s @ mDeque (rpcsub s))) \<and>
      (\<forall>ev \<in> set (wire s @ mDeque (rpcsub s)). 0 < unat (fst ev) \<and> unat (fst ev) \<le> n) \<and>
      length (subJobs s) + draining s = (if mSending (rpcsub s) then 1 else 0))"

text \<open>A subscriber as the constructor builds it, for the examples.\<close>

definition new_sub :: "string RPCSub" where
  "new_sub =
     \<lparr>mUrl = ''http://10.0.0.1/'', mIp = ''10.0.0.1'', mPort = 80, mSSL = False,
      mUsername = ''alice'', mPassword = ''secret'', mPath = ''/'', mSeq = 1,
      mSending = False, mDeque = []\<rparr>"

section \<open>The decision rule of runCheckpoint\<close>

text \<open>
  C1. For every notification \<open>runCheckpoint (db, pages)\<close>: below the threshold of 1000
  pages nothing happens (no job, \<open>running\<close> unchanged); at or above it with \<open>running\<close>
  false, \<open>running\<close> becomes true and exactly one job, the WAL job of this object, is
  added to the queue; at or above it with \<open>running\<close> true, nothing is added and the
  state is unchanged.
\<close>

theorem runCheckpoint_decision:
  "(sint pages < 1000 \<longrightarrow> runCheckpoint this db pages (c, q) = (c, q)) \<and>
   (1000 \<le> sint pages \<and> \<not> running c \<longrightarrow>
      runCheckpoint this db pages (c, q) = (c\<lparr>running := True\<rparr>, q @ [(jtWAL, ''WAL'', this)])) \<and>
   (1000 \<le> sint pages \<and> running c \<longrightarrow> runCheckpoint this db pages (c, q) = (c, q))"
  by (simp add: runCheckpoint_def runCheckpoint_guard_def runCheckpoint_submit_def
      addJob_def checkpointPageCount_def word_sless_alt)

theorem runCheckpoint_decision_witness:
  "runCheckpoint 1 ''main'' 500 (\<lparr>conn = 7, running = False\<rparr>, [])
     = (\<lparr>conn = 7, running = False\<rparr>, []) \<and>
   runCheckpoint 1 ''main'' 1500 (\<lparr>conn = 7, running = False\<rparr>, [])
     = (\<lparr>conn = 7, running = True\<rparr>, [(jtWAL, ''WAL'', 1)]) \<and>
   runCheckpoint 1 ''main'' 1500
       (\<lparr>conn = 7, running = True\<rparr>, [(jtWAL, ''WAL'', 1)])
     = (\<lparr>conn = 7, running = True\<rparr>, [(jtWAL, ''WAL'', 1)])"
  using
    runCheckpoint_decision [of 500 1 "''main''"
      "\<lparr>conn = 7, running = False\<rparr>" "[]"]
    runCheckpoint_decision [of 1500 1 "''main''"
      "\<lparr>conn = 7, running = False\<rparr>" "[]"]
    runCheckpoint_decision [of 1500 1 "''main''"
      "\<lparr>conn = 7, running = True\<rparr>" "[(jtWAL, ''WAL'', 1)]"]
  by simp

section \<open>At most one checkpoint job\<close>

text \<open>
  A notification whose two halves run with no other thread in between is
  \<open>runCheckpoint\<close> as the source has it.
\<close>

lemma notify_then_submit:
  assumes "entered s = 0"
  shows "obj (coordinator_step this Submit (coordinator_step this (Notify db pages) s))
           = fst (runCheckpoint this db pages (obj s, queue s)) \<and>
         queue (coordinator_step this Submit (coordinator_step this (Notify db pages) s))
           = snd (runCheckpoint this db pages (obj s, queue s))"
  using assms by (simp add: runCheckpoint_def runCheckpoint_guard_def)

lemma coordinator_inv_init: "coordinator_inv (coordinator_init c)"
  by (simp add: coordinator_inv_def coordinator_init_def)

lemma coordinator_inv_step:
  assumes "coordinator_inv s"
  shows "coordinator_inv (coordinator_step this e s)"
proof (cases e)
  case (Notify db pages)
  with assms show ?thesis
    by (auto simp: coordinator_inv_def runCheckpoint_guard_def split: if_splits)
next
  case Submit
  with assms show ?thesis
    by (auto simp: coordinator_inv_def runCheckpoint_submit_def addJob_def split: if_splits)
next
  case JobStart
  with assms show ?thesis
    by (auto simp: coordinator_inv_def split: list.splits if_splits)
next
  case (JobFinish fname res)
  show ?thesis
  proof (cases "0 < executing s")
    case True
    with assms have "entered s = 0 \<and> length (queue s) = 0 \<and> executing s = 1"
      unfolding coordinator_inv_def
      by (cases "running (obj s)") (simp_all del: length_0_conv)
    with JobFinish show ?thesis
      by (cases res) (simp add: coordinator_inv_def checkpoint_def)
  next
    case False
    with assms JobFinish show ?thesis by simp
  qed
qed

lemma coordinator_inv_run:
  "coordinator_inv s \<Longrightarrow> coordinator_inv (coordinator_run this evs s)"
  unfolding coordinator_run_def
  by (induction evs arbitrary: s) (simp_all add: coordinator_inv_step)

lemma coordinator_inv_reachable:
  "coordinator_inv (coordinator_run this evs (coordinator_init c))"
  by (rule coordinator_inv_run [OF coordinator_inv_init])

text \<open>
  C2. For every sequence of interleaved notifications and job completions on one
  coordinator, starting from the constructed object: at most one checkpoint job is
  queued or executing; a step adds a job only when \<open>running\<close> is already set and no job
  is queued or executing; and \<open>running\<close> goes from true to false only in the step that
  finishes the one executing job.
\<close>

theorem at_most_one_checkpoint_job:
  "length (queue (coordinator_run this evs (coordinator_init c)))
     + executing (coordinator_run this evs (coordinator_init c)) \<le> 1 \<and>
   (length (queue (coordinator_run this evs (coordinator_init c)))
      < length (queue (coordinator_step this e (coordinator_run this evs (coordinator_init c))))
    \<longrightarrow> running (obj (coordinator_run this evs (coordinator_init c))) \<and>
        queue (coordinator_run this evs (coordinator_init c)) = [] \<and>
        executing (coordinator_run this evs (coordinator_init c)) = 0) \<and>
   (running (obj (coordinator_run this evs (coordinator_init c))) \<and>
    \<not> running (obj (coordinator_step this e (coordinator_run this evs (coordinator_init c))))
    \<longrightarrow> is_JobFinish e \<and>
        executing (coordinator_run this evs (coordinator_init c)) = 1 \<and>
        queue (coordinator_run this evs (coordinator_init c)) = [])"
proof -
  define s where "s = coordinator_run this evs (coordinator_init c)"
  have inv: "coordinator_inv s"
    unfolding s_def by (rule coordinator_inv_reachable)
  have one: "length (queue s) + executing s \<le> 1"
    using inv by (simp add: coordinator_inv_def split: if_splits)
  have add: "running (obj s) \<and> queue s = [] \<and> executing s = 0"
    if grow: "length (queue s) < length (queue (coordinator_step this e s))"
  proof -
    from grow have "e = Submit \<and> 0 < entered s"
      by (cases e)
        (auto simp: runCheckpoint_guard_def checkpoint_def
          split: if_splits list.splits prod.splits)
    with inv have "running (obj s) \<and> length (queue s) = 0 \<and> executing s = 0"
      unfolding coordinator_inv_def
      by (cases "running (obj s)") (simp_all del: length_0_conv)
    then show ?thesis by simp
  qed
  have clear: "is_JobFinish e \<and> executing s = 1 \<and> queue s = []"
    if set: "running (obj s)" and unset: "\<not> running (obj (coordinator_step this e s))"
  proof -
    from set unset have "is_JobFinish e \<and> 0 < executing s"
      by (cases e)
        (auto simp: runCheckpoint_guard_def is_JobFinish_def
          split: if_splits list.splits prod.splits)
    with inv set have "is_JobFinish e \<and> executing s = 1 \<and> length (queue s) = 0"
      unfolding coordinator_inv_def by (simp del: length_0_conv)
    then show ?thesis by simp
  qed
  from one add clear show ?thesis
    unfolding s_def by blast
qed

theorem at_most_one_checkpoint_job_witness:
  "length (queue (coordinator_run 1 [Notify ''main'' 1500] (coordinator_init 7)))
     < length (queue (coordinator_step 1 Submit
         (coordinator_run 1 [Notify ''main'' 1500] (coordinator_init 7)))) \<and>
   running (obj (coordinator_run 1 [Notify ''main'' 1500] (coordinator_init 7))) \<and>
   executing (coordinator_run 1 [Notify ''main'' 1500] (coordinator_init 7)) = 0 \<and>
   running (obj (coordinator_run 1 [Notify ''main'' 1500, Submit, Notify ''main'' 1501, JobStart]
     (coordinator_init 7))) \<and>
   \<not> running (obj (coordinator_step 1 (JobFinish ''ledger.db'' (6, 0, 0))
     (coordinator_run 1 [Notify ''main'' 1500, Submit, Notify ''main'' 1501, JobStart]
       (coordinator_init 7)))) \<and>
   executing (coordinator_run 1 [Notify ''main'' 1500, Submit, Notify ''main'' 1501, JobStart]
     (coordinator_init 7)) = 1 \<and>
   length (queue (coordinator_run 1 [Notify ''main'' 1500, Submit, Notify ''main'' 1501, JobStart]
     (coordinator_init 7))) = 0"
  using
    at_most_one_checkpoint_job [of 1 "[Notify ''main'' 1500]" 7 Submit]
    at_most_one_checkpoint_job
      [of 1 "[Notify ''main'' 1500, Submit, Notify ''main'' 1501, JobStart]" 7
        "JobFinish ''ledger.db'' (6, 0, 0)"]
  by (simp add: coordinator_run_def coordinator_init_def runCheckpoint_guard_def
      runCheckpoint_submit_def addJob_def checkpoint_def checkpointPageCount_def
      word_sless_alt)

section \<open>Every outcome of a checkpoint clears running\<close>

text \<open>
  C5. Whatever \<open>sqlite3_wal_checkpoint_v2\<close> returns (success, \<open>SQLITE_LOCKED\<close> or any other
  status), \<open>checkpoint\<close> leaves \<open>running\<close> false, so that the next notification of at
  least 1000 pages sets it again and adds a new checkpoint job.
\<close>

theorem checkpoint_clears_running:
  "\<not> running (fst (checkpoint fname (ret, log, ckpt) (c, jl))) \<and>
   (1000 \<le> sint pages \<longrightarrow>
      runCheckpoint this db pages (fst (checkpoint fname (ret, log, ckpt) (c, jl)), q)
        = (c\<lparr>running := True\<rparr>, q @ [(jtWAL, ''WAL'', this)]))"
  by (simp add: checkpoint_def runCheckpoint_def runCheckpoint_guard_def
      runCheckpoint_submit_def addJob_def checkpointPageCount_def word_sless_alt)

theorem checkpoint_clears_running_witness:
  "runCheckpoint 1 ''main'' 1000
     (fst (checkpoint ''ledger.db'' (0, 1200, 1200)
        (\<lparr>conn = 7, running = True\<rparr>, [])), [])
     = (\<lparr>conn = 7, running = True\<rparr>, [(jtWAL, ''WAL'', 1)]) \<and>
   runCheckpoint 1 ''main'' 1000
     (fst (checkpoint ''ledger.db'' (6, 0, 0)
        (\<lparr>conn = 7, running = True\<rparr>, [])), [])
     = (\<lparr>conn = 7, running = True\<rparr>, [(jtWAL, ''WAL'', 1)]) \<and>
   runCheckpoint 1 ''main'' 1000
     (fst (checkpoint ''ledger.db'' (10, 0, 0)
        (\<lparr>conn = 7, running = True\<rparr>, [])), [])
     = (\<lparr>conn = 7, running = True\<rparr>, [(jtWAL, ''WAL'', 1)])"
  using
    checkpoint_clears_running [of "''ledger.db''" 0 1200 1200
      "\<lparr>conn = 7, running = True\<rparr>" "[]" 1000 1 "''main''" "[]"]
    checkpoint_clears_running [of "''ledger.db''" 6 0 0
      "\<lparr>conn = 7, running = True\<rparr>" "[]" 1000 1 "''main''" "[]"]
    checkpoint_clears_running [of "''ledger.db''" 10 0 0
      "\<lparr>conn = 7, running = True\<rparr>" "[]" 1000 1 "''main''" "[]"]
  by simp

section \<open>The hook and the writing thread\<close>

text \<open>
  C8, as the spec states it: a notification delivered through the registered hook, with
  the pointer that the constructor registered (which is not null), never hands an error
  to the writing thread. The destructor leaves the registration in place. With the
  coordinator built at address 2 on connection 5 and then destroyed, the connection
  still holds the hook with the pointer to address 2; a notification of 2000 pages goes
  through the hook with that pointer, passes the null test and calls \<open>runCheckpoint\<close> on
  an object whose lifetime has ended, which is undefined: no return of \<open>SQLITE_OK\<close> is
  guaranteed to the writer.
\<close>

theorem hook_after_destruction_counterexample:
  "wal_hook (WALCheckpointer_ctor 2 5 world0) 5 = Some (Some 2) \<and>
   wal_hook (WALCheckpointer_dtor 2 (WALCheckpointer_ctor 2 5 world0)) 5 = Some (Some 2) \<and>
   sqliteWALHook (Some 2) ''main'' 2000
       (WALCheckpointer_dtor 2 (WALCheckpointer_ctor 2 5 world0))
     = Inl (undefined_behaviour ''WALCheckpointer used after its lifetime'') \<and>
   wal_growth 5 ''main'' 2000 (WALCheckpointer_dtor 2 (WALCheckpointer_ctor 2 5 world0))
     = Inl (undefined_behaviour ''WALCheckpointer used after its lifetime'')"
  by (simp add: WALCheckpointer_dtor_def WALCheckpointer_ctor_def world0_def wal_growth_def
      sqliteWALHook_def)

text \<open>
  C8, amended: the pointer the constructor registers is \<open>this\<close>, not null, and names the
  object just built. For every notification that reaches \<open>sqliteWALHook\<close> with that
  pointer while the coordinator is alive, the hook returns \<open>SQLITE_OK\<close> to the writing
  thread, and all that has happened is the scheduling: below 1000 pages nothing, from
  1000 pages on \<open>running\<close> is set and, if it was not set before, one WAL job is added;
  connections, threads and every other object are as before, and no checkpoint has run.
  The hook throws its logic error exactly when the pointer is null, and it has an
  error outcome at all exactly when the pointer is null or names no live object: a
  notification after the coordinator's destruction is outside the guarantee. (The lock
  and \<open>addJob\<close>, which are not part of the source at hand, are taken not to throw.)
\<close>

theorem sqliteWALHook_returns_ok:
  "wal_hook (WALCheckpointer_ctor this cn w0) cn = Some (Some this) \<and>
   heap (WALCheckpointer_ctor this cn w0) this = Some \<lparr>conn = cn, running = False\<rparr> \<and>
   (heap w this = Some c \<longrightarrow>
      sqliteWALHook (Some this) db pages w =
        Inr (SQLITE_OK,
             w\<lparr>heap := (heap w)(this \<mapsto> c\<lparr>running := (running c \<or> 1000 \<le> sint pages)\<rparr>),
               jobQueue := (if 1000 \<le> sint pages \<and> \<not> running c
                            then jobQueue w @ [(jtWAL, ''WAL'', this)]
                            else jobQueue w)\<rparr>)) \<and>
   ((\<exists>msg. sqliteWALHook cp db pages w = Inl (logic_error msg)) \<longleftrightarrow> cp = None) \<and>
   ((\<exists>e. sqliteWALHook cp db pages w = Inl e) \<longleftrightarrow>
      (cp = None \<or> (\<exists>a. cp = Some a \<and> heap w a = None)))"
proof (intro conjI impI)
  show "wal_hook (WALCheckpointer_ctor this cn w0) cn = Some (Some this)"
    by (simp add: WALCheckpointer_ctor_def)
  show "heap (WALCheckpointer_ctor this cn w0) this = Some \<lparr>conn = cn, running = False\<rparr>"
    by (simp add: WALCheckpointer_ctor_def)
next
  assume alive: "heap w this = Some c"
  have "runCheckpoint this db pages (c, jobQueue w) =
          (c\<lparr>running := (running c \<or> 1000 \<le> sint pages)\<rparr>,
           if 1000 \<le> sint pages \<and> \<not> running c
           then jobQueue w @ [(jtWAL, ''WAL'', this)] else jobQueue w)"
    by (simp add: runCheckpoint_def runCheckpoint_guard_def runCheckpoint_submit_def
        addJob_def checkpointPageCount_def word_sless_alt)
  with alive show "sqliteWALHook (Some this) db pages w =
        Inr (SQLITE_OK,
             w\<lparr>heap := (heap w)(this \<mapsto> c\<lparr>running := (running c \<or> 1000 \<le> sint pages)\<rparr>),
               jobQueue := (if 1000 \<le> sint pages \<and> \<not> running c
                            then jobQueue w @ [(jtWAL, ''WAL'', this)]
                            else jobQueue w)\<rparr>)"
    by (simp add: sqliteWALHook_def)
next
  show "(\<exists>msg. sqliteWALHook cp db pages w = Inl (logic_error msg)) \<longleftrightarrow> cp = None"
    by (auto simp: sqliteWALHook_def split: option.splits prod.splits)
next
  show "(\<exists>e. sqliteWALHook cp db pages w = Inl e) \<longleftrightarrow>
      (cp = None \<or> (\<exists>a. cp = Some a \<and> heap w a = None))"
    by (auto simp: sqliteWALHook_def split: option.splits prod.splits)
qed

theorem sqliteWALHook_returns_ok_witness:
  "heap (WALCheckpointer_ctor 1 7 world0) 1 = Some \<lparr>conn = 7, running = False\<rparr> \<and>
   sqliteWALHook (Some 1) ''main'' 1500 (WALCheckpointer_ctor 1 7 world0) =
     Inr (0, (WALCheckpointer_ctor 1 7 world0)
       \<lparr>heap := (heap (WALCheckpointer_ctor 1 7 world0))(1 \<mapsto> \<lparr>conn = 7, running = True\<rparr>),
         jobQueue := [(jtWAL, ''WAL'', 1)]\<rparr>) \<and>
   sqliteWALHook (Some 1) ''main'' 500 (WALCheckpointer_ctor 1 7 world0) =
     Inr (0, (WALCheckpointer_ctor 1 7 world0)
       \<lparr>heap := (heap (WALCheckpointer_ctor 1 7 world0))(1 \<mapsto> \<lparr>conn = 7, running = False\<rparr>),
         jobQueue := []\<rparr>) \<and>
   sqliteWALHook None ''main'' 1500 (WALCheckpointer_ctor 1 7 world0)
     = Inl (logic_error ''Didn't get a WALCheckpointer'')"
  using
    sqliteWALHook_returns_ok
      [of 1 7 world0 "WALCheckpointer_ctor 1 7 world0" "\<lparr>conn = 7, running = False\<rparr>"
        "''main''" 1500 None]
    sqliteWALHook_returns_ok
      [of 1 7 world0 "WALCheckpointer_ctor 1 7 world0" "\<lparr>conn = 7, running = False\<rparr>"
        "''main''" 500 None]
  by (simp add: WALCheckpointer_ctor_def world0_def SQLITE_OK_def sqliteWALHook_def)

section \<open>Destruction and the hook\<close>

text \<open>
  C4, as the spec states it: destroying the coordinator deregisters the hook, so that
  no growth event reaches the coordinator afterwards. The destructor only calls
  \<open>stopThread\<close>. On connection 7, with the coordinator built at address 1 and then
  destroyed, the connection still holds the hook with the pointer to address 1, and a
  growth event calls \<open>sqliteWALHook\<close> with it although no object lives there any more.
\<close>

theorem dtor_deregisters_counterexample:
  "wal_hook (WALCheckpointer_dtor 1 (WALCheckpointer_ctor 1 7 world0)) 7 \<noteq> None \<and>
   wal_hook (WALCheckpointer_dtor 1 (WALCheckpointer_ctor 1 7 world0)) 7 = Some (Some 1) \<and>
   heap (WALCheckpointer_dtor 1 (WALCheckpointer_ctor 1 7 world0)) 1 = None \<and>
   sqliteWALHook (Some 1) ''main'' 1500
       (WALCheckpointer_dtor 1 (WALCheckpointer_ctor 1 7 world0))
     = Inl (undefined_behaviour ''WALCheckpointer used after its lifetime'') \<and>
   wal_growth 7 ''main'' 1500 (WALCheckpointer_dtor 1 (WALCheckpointer_ctor 1 7 world0))
     = Inl (undefined_behaviour ''WALCheckpointer used after its lifetime'')"
  by (simp add: WALCheckpointer_dtor_def WALCheckpointer_ctor_def world0_def wal_growth_def
      sqliteWALHook_def)

text \<open>
  C4, amended: destroying the coordinator stops its thread and ends the object's
  lifetime, and leaves every connection's hook registration as it was. A connection
  whose hook names the coordinator keeps naming it, and a growth event on that
  connection after the destruction still calls the hook, with the pointer to the
  destroyed object.
\<close>

theorem dtor_keeps_hook:
  "wal_hook (WALCheckpointer_dtor this w) = wal_hook w \<and>
   this \<notin> threads (WALCheckpointer_dtor this w) \<and>
   heap (WALCheckpointer_dtor this w) this = None \<and>
   (wal_hook w cn = Some (Some this) \<longrightarrow>
      wal_growth cn db pages (WALCheckpointer_dtor this w)
        = Inl (undefined_behaviour ''WALCheckpointer used after its lifetime''))"
  by (simp add: WALCheckpointer_dtor_def wal_growth_def sqliteWALHook_def)

theorem dtor_keeps_hook_witness:
  "wal_hook (WALCheckpointer_ctor 1 7 world0) 7 = Some (Some 1) \<and>
   wal_hook (WALCheckpointer_dtor 1 (WALCheckpointer_ctor 1 7 world0))
     = wal_hook (WALCheckpointer_ctor 1 7 world0) \<and>
   wal_growth 7 ''main'' 1000 (WALCheckpointer_dtor 1 (WALCheckpointer_ctor 1 7 world0))
     = Inl (undefined_behaviour ''WALCheckpointer used after its lifetime'')"
  using dtor_keeps_hook [of 1 "WALCheckpointer_ctor 1 7 world0" 7 "''main''" 1000]
  by (simp add: WALCheckpointer_ctor_def world0_def)

section \<open>Creating a checkpointer\<close>

text \<open>
  C6, as the spec states it: on an unusable connection \<open>makeCheckpointer\<close> returns an
  empty handle. On a session whose sqlite3 backend has a null connection, and on a
  session with no backend at all, \<open>getConnection\<close> throws and \<open>makeCheckpointer\<close> returns
  nothing.
\<close>

theorem makeCheckpointer_empty_counterexample:
  "makeCheckpointer 1 (Some (sqlite3_session_backend None)) world0 \<noteq> Inr (None, world0) \<and>
   makeCheckpointer 1 (Some (sqlite3_session_backend None)) world0
     = Inl (logic_error ''Didn't get a database connection.'') \<and>
   makeCheckpointer 1 None world0 = Inl (logic_error ''Didn't get a database connection.'')"
  by (simp add: makeCheckpointer_def getConnection_def)

text \<open>
  C6, amended: if the session yields a usable connection (a sqlite3 backend whose
  connection pointer is not null), \<open>makeCheckpointer\<close> returns a non-empty handle to a
  coordinator that is registered as that connection's hook; on any other session it
  throws the logic error of \<open>getConnection\<close>. It never returns an empty handle.
\<close>

theorem makeCheckpointer_result:
  "(usable s \<longrightarrow>
      (\<exists>cn. s = Some (sqlite3_session_backend (Some cn)) \<and>
         makeCheckpointer fresh s w = Inr (Some fresh, WALCheckpointer_ctor fresh cn w) \<and>
         wal_hook (WALCheckpointer_ctor fresh cn w) cn = Some (Some fresh) \<and>
         heap (WALCheckpointer_ctor fresh cn w) fresh = Some \<lparr>conn = cn, running = False\<rparr>)) \<and>
   (\<not> usable s \<longrightarrow>
      makeCheckpointer fresh s w = Inl (logic_error ''Didn't get a database connection.'')) \<and>
   (\<forall>w'. makeCheckpointer fresh s w \<noteq> Inr (None, w'))"
  by (auto simp: usable_def makeCheckpointer_def getConnection_def WALCheckpointer_ctor_def
      split: option.splits session_backend.splits)

theorem makeCheckpointer_result_witness:
  "usable (Some (sqlite3_session_backend (Some 7))) \<and>
   makeCheckpointer 1 (Some (sqlite3_session_backend (Some 7))) world0
     = Inr (Some 1, WALCheckpointer_ctor 1 7 world0) \<and>
   \<not> usable (Some other_backend) \<and>
   makeCheckpointer 1 (Some other_backend) world0
     = Inl (logic_error ''Didn't get a database connection.'')"
  using
    makeCheckpointer_result [of "Some (sqlite3_session_backend (Some 7))" 1 world0]
    makeCheckpointer_result [of "Some other_backend" 1 world0]
  by (simp add: usable_def)

section \<open>Constructing a subscriber\<close>

text \<open>
  C10. The constructor throws if and only if the URL fails to parse or its scheme is
  neither \<open>http\<close> nor \<open>https\<close>. When it succeeds, SSL is on exactly when the scheme is
  \<open>https\<close>; a parsed port below zero becomes 443 for https and 80 for http, and any other
  port is kept.
\<close>

theorem RPCSub_ctor_result:
  "((\<exists>e. (RPCSub_ctor parseUrl strUrl usr pwd :: error + 'v RPCSub) = Inl e) \<longleftrightarrow>
      (parseUrl strUrl = None \<or>
       (\<exists>sch ip port path. parseUrl strUrl = Some (sch, ip, port, path) \<and>
          sch \<noteq> ''http'' \<and> sch \<noteq> ''https''))) \<and>
   ((RPCSub_ctor parseUrl strUrl usr pwd :: error + 'v RPCSub) = Inr sub \<and>
    parseUrl strUrl = Some (strScheme, ip, port, path) \<longrightarrow>
      mSSL sub = (strScheme = ''https'') \<and>
      (sint port < 0 \<longrightarrow> mPort sub = (if strScheme = ''https'' then 443 else 80)) \<and>
      (0 \<le> sint port \<longrightarrow> mPort sub = port))"
  by (auto simp: RPCSub_ctor_def word_sless_alt split: option.splits if_splits)

theorem RPCSub_ctor_result_witness:
  "(RPCSub_ctor (\<lambda>u. Some (''https'', ''10.0.0.1'', - 1, ''/events'')) ''https://10.0.0.1/events''
      ''alice'' ''secret'' :: error + unit RPCSub)
     = Inr \<lparr>mUrl = ''https://10.0.0.1/events'', mIp = ''10.0.0.1'', mPort = 443, mSSL = True,
            mUsername = ''alice'', mPassword = ''secret'', mPath = ''/events'', mSeq = 1,
            mSending = False, mDeque = []\<rparr> \<and>
   (RPCSub_ctor (\<lambda>u. Some (''http'', ''10.0.0.1'', 8080, ''/'')) ''http://10.0.0.1:8080/''
      ''alice'' ''secret'' :: error + unit RPCSub)
     = Inr \<lparr>mUrl = ''http://10.0.0.1:8080/'', mIp = ''10.0.0.1'', mPort = 8080, mSSL = False,
            mUsername = ''alice'', mPassword = ''secret'', mPath = ''/'', mSeq = 1,
            mSending = False, mDeque = []\<rparr> \<and>
   (\<exists>e. (RPCSub_ctor (\<lambda>u. Some (''ftp'', ''10.0.0.1'', 21, ''/'')) ''ftp://10.0.0.1:21/''
      ''alice'' ''secret'' :: error + unit RPCSub) = Inl e) \<and>
   (\<exists>e. (RPCSub_ctor (\<lambda>u. None) ''nonsense'' ''alice'' ''secret'' :: error + unit RPCSub)
      = Inl e)"
  using
    RPCSub_ctor_result [where 'v = unit,
      of "\<lambda>u. Some (''https'', ''10.0.0.1'', - 1, ''/events'')" "''https://10.0.0.1/events''"
        "''alice''" "''secret''"
        "\<lparr>mUrl = ''https://10.0.0.1/events'', mIp = ''10.0.0.1'', mPort = 443, mSSL = True,
          mUsername = ''alice'', mPassword = ''secret'', mPath = ''/events'', mSeq = 1,
          mSending = False, mDeque = []\<rparr>" "''https''" "''10.0.0.1''" "- 1" "''/events''"]
    RPCSub_ctor_result [where 'v = unit,
      of "\<lambda>u. Some (''http'', ''10.0.0.1'', 8080, ''/'')" "''http://10.0.0.1:8080/''"
        "''alice''" "''secret''"
        "\<lparr>mUrl = ''http://10.0.0.1:8080/'', mIp = ''10.0.0.1'', mPort = 8080, mSSL = False,
          mUsername = ''alice'', mPassword = ''secret'', mPath = ''/'', mSeq = 1,
          mSending = False, mDeque = []\<rparr>" "''http''" "''10.0.0.1''" 8080 "''/''"]
    RPCSub_ctor_result [where 'v = unit,
      of "\<lambda>u. Some (''ftp'', ''10.0.0.1'', 21, ''/'')" "''ftp://10.0.0.1:21/''"
        "''alice''" "''secret''"]
    RPCSub_ctor_result [where 'v = unit, of "\<lambda>u. None" "''nonsense''" "''alice''" "''secret''"]
  by (simp add: RPCSub_ctor_def word_sless_alt)

section \<open>The event queue\<close>

lemma send_Inr:
  assumes "0 < cap"
  shows "\<exists>r lg'. send cap this v b (s, q, lg) =
           Inr (r, (if mSending s then q else q @ [(jtCLIENT, ''RPCSub::sendThread'', this)]), lg') \<and>
         r = s\<lparr>mDeque := (if cap \<le> length (mDeque s) then butlast (mDeque s) else mDeque s)
                   @ [(mSeq s, v)],
               mSeq := mSeq s + 1, mSending := True\<rparr>"
proof (cases "cap \<le> length (mDeque s)")
  case True
  with assms have "mDeque s \<noteq> []" by auto
  with True show ?thesis
    by (simp add: send_def pop_back_def addJob_def Let_def)
next
  case False
  then show ?thesis
    by (simp add: send_def addJob_def Let_def)
qed

lemma sub_step_Push:
  assumes "0 < cap"
  shows "\<exists>s'. sub_step cap this (Push v b) s = Inr s' \<and>
           rpcsub s' = (rpcsub s)\<lparr>mDeque :=
               (if cap \<le> length (mDeque (rpcsub s)) then butlast (mDeque (rpcsub s))
                else mDeque (rpcsub s)) @ [(mSeq (rpcsub s), v)],
             mSeq := mSeq (rpcsub s) + 1, mSending := True\<rparr> \<and>
           subJobs s' = (if mSending (rpcsub s) then subJobs s
                         else subJobs s @ [(jtCLIENT, ''RPCSub::sendThread'', this)]) \<and>
           draining s' = draining s \<and> wire s' = wire s"
proof -
  from send_Inr [OF assms, of this v b "rpcsub s" "subJobs s" "sublog s"]
  obtain r lg' where
    "send cap this v b (rpcsub s, subJobs s, sublog s) =
       Inr (r, (if mSending (rpcsub s) then subJobs s
                else subJobs s @ [(jtCLIENT, ''RPCSub::sendThread'', this)]), lg')"
    and "r = (rpcsub s)\<lparr>mDeque :=
               (if cap \<le> length (mDeque (rpcsub s)) then butlast (mDeque (rpcsub s))
                else mDeque (rpcsub s)) @ [(mSeq (rpcsub s), v)],
             mSeq := mSeq (rpcsub s) + 1, mSending := True\<rparr>"
    by blast
  then show ?thesis by simp
qed

lemma sub_run_append:
  "sub_run cap this (xs @ ys) s =
     (case sub_run cap this xs s of Inl e \<Rightarrow> Inl e | Inr s' \<Rightarrow> sub_run cap this ys s')"
  by (induction xs arbitrary: s) (simp_all split: sum.splits)

lemma stamped_snoc:
  "stamped m (vs @ [v]) = stamped m vs @ [(m + word_of_nat (length vs), v)]"
  by (simp add: stamped_def)

lemma length_stamped: "length (stamped m vs) = length vs"
  by (simp add: stamped_def)

lemma retained_snoc:
  assumes "0 < cap"
  shows "retained cap (xs @ [x]) =
           (if cap \<le> length (retained cap xs) then butlast (retained cap xs)
            else retained cap xs) @ [x]"
proof -
  consider "length xs < cap" | "length xs = cap" | "cap < length xs" by linarith
  then show ?thesis
  proof cases
    case 1
    then show ?thesis by (simp add: retained_def)
  next
    case 2
    with assms show ?thesis by (simp add: retained_def butlast_conv_take)
  next
    case 3
    with assms have "length (take (cap - 1) xs @ [last xs]) = cap" by simp
    with 3 assms show ?thesis by (simp add: retained_def)
  qed
qed

lemma length_retained: "0 < cap \<Longrightarrow> length (retained cap xs) \<le> cap"
  by (simp add: retained_def)

text \<open>Pushing the payloads \<open>vs\<close> onto an empty deque, with no pass of the loop between.\<close>

lemma push_only_run:
  assumes "0 < cap" and "mDeque (rpcsub s) = []"
  shows "\<exists>s'. sub_run cap this (map (\<lambda>v. Push v b) vs) s = Inr s' \<and>
           mDeque (rpcsub s') = retained cap (stamped (mSeq (rpcsub s)) vs) \<and>
           mSeq (rpcsub s') = mSeq (rpcsub s) + word_of_nat (length vs) \<and>
           wire s' = wire s \<and> draining s' = draining s \<and>
           mSending (rpcsub s') = (vs \<noteq> [] \<or> mSending (rpcsub s)) \<and>
           subJobs s' = (if vs = [] \<or> mSending (rpcsub s) then subJobs s
                         else subJobs s @ [(jtCLIENT, ''RPCSub::sendThread'', this)])"
proof (induction vs rule: rev_induct)
  case Nil
  with assms show ?case by (simp add: retained_def stamped_def)
next
  case (snoc v vs)
  then obtain s1 where run: "sub_run cap this (map (\<lambda>v. Push v b) vs) s = Inr s1"
    and dq: "mDeque (rpcsub s1) = retained cap (stamped (mSeq (rpcsub s)) vs)"
    and sq: "mSeq (rpcsub s1) = mSeq (rpcsub s) + word_of_nat (length vs)"
    and rest: "wire s1 = wire s" "draining s1 = draining s"
    and snd: "mSending (rpcsub s1) = (vs \<noteq> [] \<or> mSending (rpcsub s))"
    and jobs: "subJobs s1 = (if vs = [] \<or> mSending (rpcsub s) then subJobs s
                         else subJobs s @ [(jtCLIENT, ''RPCSub::sendThread'', this)])"
    by blast
  from sub_step_Push [OF assms(1), of this v b s1]
  obtain s2 where step: "sub_step cap this (Push v b) s1 = Inr s2"
    and r2: "rpcsub s2 = (rpcsub s1)\<lparr>mDeque :=
               (if cap \<le> length (mDeque (rpcsub s1)) then butlast (mDeque (rpcsub s1))
                else mDeque (rpcsub s1)) @ [(mSeq (rpcsub s1), v)],
             mSeq := mSeq (rpcsub s1) + 1, mSending := True\<rparr>"
    and jobs2: "subJobs s2 = (if mSending (rpcsub s1) then subJobs s1
                         else subJobs s1 @ [(jtCLIENT, ''RPCSub::sendThread'', this)])"
    and rest2: "draining s2 = draining s1" "wire s2 = wire s1"
    by blast
  have "sub_run cap this (map (\<lambda>v. Push v b) (vs @ [v])) s = Inr s2"
    using run step by (simp add: sub_run_append)
  moreover have "mDeque (rpcsub s2) = retained cap (stamped (mSeq (rpcsub s)) (vs @ [v]))"
    unfolding stamped_snoc retained_snoc [OF assms(1)] using r2 dq sq by simp
  moreover have "mSeq (rpcsub s2) = mSeq (rpcsub s) + word_of_nat (length (vs @ [v]))"
    using r2 sq by simp
  moreover have "mSending (rpcsub s2)"
    using r2 by simp
  moreover have "subJobs s2 = (if mSending (rpcsub s) then subJobs s
                         else subJobs s @ [(jtCLIENT, ''RPCSub::sendThread'', this)])"
    using jobs2 jobs snd by (cases "vs = []") simp_all
  ultimately show ?case using rest rest2 by simp
qed

text \<open>
  C3, as the spec states it: a push onto a full queue evicts the oldest entry, so that
  pushing capacity + k entries leaves the newest capacity of them. With a capacity of
  3, four pushes into the empty queue of a new subscriber leave the entries numbered 1,
  2 and 4: the third, not the first, has gone.
\<close>

theorem drop_oldest_counterexample:
  "queued (sub_run 3 0
      [Push ''a'' False, Push ''b'' False, Push ''c'' False, Push ''d'' False]
      (sub_init new_sub))
     = Some [(1, ''a''), (2, ''b''), (4, ''d'')] \<and>
   queued (sub_run 3 0
      [Push ''a'' False, Push ''b'' False, Push ''c'' False, Push ''d'' False]
      (sub_init new_sub))
     \<noteq> Some [(2, ''b''), (3, ''c''), (4, ''d'')]"
  by (simp add: queued_def sub_init_def new_sub_def send_def pop_back_def addJob_def Let_def)

text \<open>
  C3, amended: a push onto a full queue (capacity at least 1) evicts the entry at the
  back of the buffer, the one pushed last before, and appends the new entry, which is
  never the one dropped; hence pushing capacity + k entries (k at least 1) into an empty
  queue, with no delivery between, retains the oldest capacity - 1 entries and the
  newest one, in their original order.
\<close>

theorem send_drops_previous:
  "(0 < cap \<and> cap \<le> length (mDeque s) \<longrightarrow>
      queued (sub_step cap this (Push v b) \<lparr>rpcsub = s, subJobs = q, draining = d,
                wire = w, sublog = lg\<rparr>)
        = Some (butlast (mDeque s) @ [(mSeq s, v)])) \<and>
   (0 < cap \<and> mDeque s = [] \<and> cap < length vs \<longrightarrow>
      queued (sub_run cap this (map (\<lambda>v. Push v b) vs)
                \<lparr>rpcsub = s, subJobs = q, draining = d, wire = w, sublog = lg\<rparr>)
        = Some (take (cap - 1) (stamped (mSeq s) vs) @ [last (stamped (mSeq s) vs)]))"
proof (intro conjI impI)
  assume a: "0 < cap \<and> cap \<le> length (mDeque s)"
  from sub_step_Push [of cap this v b
      "\<lparr>rpcsub = s, subJobs = q, draining = d, wire = w, sublog = lg\<rparr>"] a
  show "queued (sub_step cap this (Push v b) \<lparr>rpcsub = s, subJobs = q, draining = d,
                wire = w, sublog = lg\<rparr>)
        = Some (butlast (mDeque s) @ [(mSeq s, v)])"
    by (auto simp: queued_def)
next
  assume a: "0 < cap \<and> mDeque s = [] \<and> cap < length vs"
  from push_only_run [of cap
      "\<lparr>rpcsub = s, subJobs = q, draining = d, wire = w, sublog = lg\<rparr>" this b vs] a
  show "queued (sub_run cap this (map (\<lambda>v. Push v b) vs)
                \<lparr>rpcsub = s, subJobs = q, draining = d, wire = w, sublog = lg\<rparr>)
        = Some (take (cap - 1) (stamped (mSeq s) vs) @ [last (stamped (mSeq s) vs)])"
    by (auto simp: queued_def retained_def length_stamped)
qed

theorem send_drops_previous_witness:
  "queued (sub_step 3 0 (Push ''d'' False)
      \<lparr>rpcsub = new_sub\<lparr>mDeque := [(1, ''a''), (2, ''b''), (3, ''c'')], mSeq := 4,
                   mSending := True\<rparr>,
       subJobs = [(jtCLIENT, ''RPCSub::sendThread'', 0)], draining = 0, wire = [], sublog = []\<rparr>)
     = Some [(1, ''a''), (2, ''b''), (4, ''d'')] \<and>
   queued (sub_run 3 0 (map (\<lambda>v. Push v False) [''a'', ''b'', ''c'', ''d''])
      \<lparr>rpcsub = new_sub, subJobs = [], draining = 0, wire = [], sublog = []\<rparr>)
     = Some [(1, ''a''), (2, ''b''), (4, ''d'')]"
  using
    send_drops_previous [of 3
      "new_sub\<lparr>mDeque := [(1, ''a''), (2, ''b''), (3, ''c'')], mSeq := 4, mSending := True\<rparr>"
      0 "''d''" False "[(jtCLIENT, ''RPCSub::sendThread'', 0)]" 0 "[]" "[]"]
    send_drops_previous [of 3 new_sub 0 "''d''" False "[]" 0 "[]" "[]"
      "[''a'', ''b'', ''c'', ''d'']"]
  by (simp add: new_sub_def stamped_def)

lemma new_sub_constructed:
  "RPCSub_ctor (\<lambda>u. Some (''http'', ''10.0.0.1'', - 1, ''/'')) ''http://10.0.0.1/''
     ''alice'' ''secret'' = Inr new_sub"
  by (simp add: RPCSub_ctor_def new_sub_def word_sless_alt)

section \<open>Sequence numbers and the order of delivery\<close>

lemma sint_small: "unat (w :: cint) < 2 ^ 31 \<Longrightarrow> sint w = int (unat w)"
proof -
  assume "unat w < 2 ^ 31"
  then have "int (unat w) < int (2 ^ 31)" by (simp only: of_nat_less_iff)
  also have "int (2 ^ 31) = 2 ^ 31" by (simp only: of_nat_power of_nat_numeral)
  finally have upper: "int (unat w) < 2 ^ 31" .
  have lower: "- (2 ^ 31) \<le> int (unat w)" by (rule order_trans [of _ 0]) simp_all
  have "sint w = signed_take_bit 31 (int (unat w))"
    by (simp only: sint_uint uint_nat) simp
  also from lower upper have "\<dots> = int (unat w)"
    by (rule signed_take_bit_int_eq_self)
  finally show ?thesis .
qed

lemma unat_succ:
  "unat (m :: cint) = Suc n \<Longrightarrow> Suc (Suc n) < 2 ^ 32 \<Longrightarrow> unat (m + 1) = Suc (Suc n)"
proof -
  assume a: "unat m = Suc n" and b: "Suc (Suc n) < 2 ^ 32"
  have "unat (m + 1) = (unat m + unat (1 :: cint)) mod 2 ^ LENGTH(32)"
    by (rule unat_word_ariths)
  with a b show ?thesis by simp
qed

lemma ctor_fresh:
  "RPCSub_ctor parseUrl strUrl usr pwd = Inr r \<Longrightarrow> mSeq r = 1 \<and> mDeque r = [] \<and> \<not> mSending r"
  by (auto simp: RPCSub_ctor_def split: option.splits if_splits)

lemma sub_inv_init: "mSeq r = 1 \<Longrightarrow> mDeque r = [] \<Longrightarrow> \<not> mSending r \<Longrightarrow> sub_inv 0 (sub_init r)"
  by (simp add: sub_inv_def sub_init_def)

lemma sorted_wrt_drop_last:
  "sorted_wrt P (map f (xs @ ys)) \<Longrightarrow> sorted_wrt P (map f (xs @ butlast ys))"
proof (cases "ys = []")
  case True
  then show "sorted_wrt P (map f (xs @ ys)) \<Longrightarrow> ?thesis" by simp
next
  case False
  assume "sorted_wrt P (map f (xs @ ys))"
  then have "sorted_wrt P (butlast (map f (xs @ ys)))"
    unfolding butlast_conv_take by (rule sorted_wrt_take)
  with False show ?thesis by (simp add: map_butlast butlast_append)
qed

lemma sub_inv_Push:
  assumes cap: "0 < cap" and inv: "sub_inv n s" and bound: "Suc n < 2 ^ 31"
  shows "\<exists>s'. sub_step cap this (Push v b) s = Inr s' \<and> sub_inv (Suc n) s' \<and>
           mDeque (rpcsub s') \<noteq> [] \<and> last (mDeque (rpcsub s')) = (word_of_nat (Suc n), v)"
proof -
  define dq where "dq = (if cap \<le> length (mDeque (rpcsub s)) then butlast (mDeque (rpcsub s))
                else mDeque (rpcsub s))"
  from sub_step_Push [OF cap, of this v b s]
  obtain s' where step: "sub_step cap this (Push v b) s = Inr s'"
    and r': "rpcsub s' = (rpcsub s)\<lparr>mDeque := dq @ [(mSeq (rpcsub s), v)],
               mSeq := mSeq (rpcsub s) + 1, mSending := True\<rparr>"
    and jobs: "subJobs s' = (if mSending (rpcsub s) then subJobs s
                         else subJobs s @ [(jtCLIENT, ''RPCSub::sendThread'', this)])"
    and rest: "draining s' = draining s" "wire s' = wire s"
    unfolding dq_def by blast
  from inv have seq: "unat (mSeq (rpcsub s)) = Suc n"
    and srt: "sorted_wrt (<) (map (\<lambda>ev. unat (fst ev)) (wire s @ mDeque (rpcsub s)))"
    and rng: "\<forall>ev \<in> set (wire s @ mDeque (rpcsub s)). 0 < unat (fst ev) \<and> unat (fst ev) \<le> n"
    and one: "length (subJobs s) + draining s = (if mSending (rpcsub s) then 1 else 0)"
    by (simp_all add: sub_inv_def)
  have sub: "set dq \<subseteq> set (mDeque (rpcsub s))"
    by (auto simp: dq_def dest: in_set_butlastD)
  have srt': "sorted_wrt (<) (map (\<lambda>ev. unat (fst ev)) (wire s @ dq))"
    using srt sorted_wrt_drop_last [of "(<)" "\<lambda>ev. unat (fst ev)" "wire s" "mDeque (rpcsub s)"]
    by (simp add: dq_def)
  have rng': "\<forall>ev \<in> set (wire s @ dq). 0 < unat (fst ev) \<and> unat (fst ev) \<le> n"
    using rng sub by auto
  from bound have "Suc (Suc n) < (2 :: nat) ^ 32" by simp
  with seq have seq': "unat (mSeq (rpcsub s) + 1) = Suc (Suc n)"
    by (rule unat_succ)
  have below: "x < unat (mSeq (rpcsub s))"
    if "x \<in> set (map (\<lambda>ev. unat (fst ev)) (wire s @ dq))" for x
  proof -
    from that obtain ev where "ev \<in> set (wire s @ dq)" "x = unat (fst ev)" by auto
    with rng' have "x \<le> n" by blast
    with seq show ?thesis by simp
  qed
  with srt' have "sorted_wrt (<)
      (map (\<lambda>ev. unat (fst ev)) ((wire s @ dq) @ [(mSeq (rpcsub s), v)]))"
    by (simp only: map_append [of _ "wire s @ dq"] sorted_wrt_append) simp
  moreover have "\<forall>ev \<in> set ((wire s @ dq) @ [(mSeq (rpcsub s), v)]).
      0 < unat (fst ev) \<and> unat (fst ev) \<le> Suc n"
  proof
    fix ev assume "ev \<in> set ((wire s @ dq) @ [(mSeq (rpcsub s), v)])"
    then consider "ev \<in> set (wire s @ dq)" | "ev = (mSeq (rpcsub s), v)" by auto
    then show "0 < unat (fst ev) \<and> unat (fst ev) \<le> Suc n"
    proof cases
      case 1
      with rng' have "0 < unat (fst ev) \<and> unat (fst ev) \<le> n" by blast
      then show ?thesis by simp
    next
      case 2
      with seq show ?thesis by simp
    qed
  qed
  moreover have "length (subJobs s') + draining s' = 1"
    using one jobs rest by (simp split: if_splits)
  ultimately have "sub_inv (Suc n) s'"
    using r' rest seq' by (simp add: sub_inv_def)
  moreover have "mSeq (rpcsub s) = word_of_nat (Suc n)"
  proof -
    have "word_of_nat (unat (mSeq (rpcsub s))) = mSeq (rpcsub s)" by simp
    with seq show ?thesis by simp
  qed
  ultimately show ?thesis using step r' by simp
qed

lemma sub_inv_other:
  assumes inv: "sub_inv n s" and e: "\<not> is_Push e"
  shows "\<exists>s'. sub_step cap this e s = Inr s' \<and> sub_inv n s'"
proof (cases e)
  case (Push v b)
  with e show ?thesis by simp
next
  case WorkerStart
  with inv show ?thesis
    by (cases "subJobs s") (simp_all add: sub_inv_def)
next
  case (Iterate out)
  show ?thesis
  proof (cases "0 < draining s")
    case False
    with inv Iterate show ?thesis by simp
  next
    case True
    with inv have one: "mSending (rpcsub s) \<and> draining s = 1 \<and> length (subJobs s) = 0"
      unfolding sub_inv_def
      by (cases "mSending (rpcsub s)") (simp_all del: length_0_conv)
    show ?thesis
    proof (cases "mDeque (rpcsub s)")
      case Nil
      with inv one True Iterate show ?thesis
        by (simp add: sub_inv_def sendThread_body_def)
    next
      case (Cons ev rest)
      with inv one True Iterate show ?thesis
        by (simp add: sub_inv_def sendThread_body_def)
    qed
  qed
qed

lemma pushes_Cons:
  "pushes (e # es) = (if is_Push e then Suc (pushes es) else pushes es)"
  by (simp add: pushes_def)

lemma sub_inv_run:
  assumes cap: "0 < cap"
  shows "sub_inv n s \<Longrightarrow> n + pushes evs < 2 ^ 31 \<Longrightarrow>
           \<exists>s'. sub_run cap this evs s = Inr s' \<and> sub_inv (n + pushes evs) s'"
proof (induction evs arbitrary: n s)
  case Nil
  then show ?case by (simp add: pushes_def)
next
  case (Cons e es)
  show ?case
  proof (cases e)
    case (Push v b)
    with Cons.prems have bound: "Suc n < 2 ^ 31" by (simp add: pushes_Cons)
    from sub_inv_Push [OF cap Cons.prems(1) bound, of this v b]
    obtain s1 where step: "sub_step cap this (Push v b) s = Inr s1"
      and inv1: "sub_inv (Suc n) s1" by blast
    from Cons.prems Push have "Suc n + pushes es < 2 ^ 31" by (simp add: pushes_Cons)
    from Cons.IH [OF inv1 this]
    obtain s' where "sub_run cap this es s1 = Inr s'" "sub_inv (Suc n + pushes es) s'"
      by blast
    with step Push show ?thesis by (simp add: pushes_Cons)
  next
    case WorkerStart
    from sub_inv_other [OF Cons.prems(1), of WorkerStart cap this]
    obtain s1 where step: "sub_step cap this WorkerStart s = Inr s1"
      and inv1: "sub_inv n s1" by auto
    from Cons.prems WorkerStart have "n + pushes es < 2 ^ 31" by (simp add: pushes_Cons)
    from Cons.IH [OF inv1 this]
    obtain s' where "sub_run cap this es s1 = Inr s'" "sub_inv (n + pushes es) s'"
      by blast
    with step WorkerStart show ?thesis by (simp add: pushes_Cons)
  next
    case (Iterate out)
    from sub_inv_other [OF Cons.prems(1), of "Iterate out" cap this]
    obtain s1 where step: "sub_step cap this (Iterate out) s = Inr s1"
      and inv1: "sub_inv n s1" by auto
    from Cons.prems Iterate have "n + pushes es < 2 ^ 31" by (simp add: pushes_Cons)
    from Cons.IH [OF inv1 this]
    obtain s' where "sub_run cap this es s1 = Inr s'" "sub_inv (n + pushes es) s'"
      by blast
    with step Iterate show ?thesis by (simp add: pushes_Cons)
  qed
qed

lemma sub_inv_sint:
  assumes inv: "sub_inv n s" and bound: "n < 2 ^ 31"
  shows "sorted_wrt (<) (map (\<lambda>ev. sint (fst ev)) (wire s @ mDeque (rpcsub s)))"
proof -
  from inv have srt: "sorted_wrt (<) (map (\<lambda>ev. unat (fst ev)) (wire s @ mDeque (rpcsub s)))"
    and rng: "\<forall>ev \<in> set (wire s @ mDeque (rpcsub s)). unat (fst ev) \<le> n"
    by (simp_all add: sub_inv_def)
  have eq: "sint (fst ev) = int (unat (fst ev))" if "ev \<in> set (wire s @ mDeque (rpcsub s))" for ev
  proof -
    from rng that have "unat (fst ev) \<le> n" by blast
    with bound have "unat (fst ev) < 2 ^ 31" by simp
    then show ?thesis by (rule sint_small)
  qed
  from srt have "sorted_wrt (\<lambda>x y. unat (fst x) < unat (fst y)) (wire s @ mDeque (rpcsub s))"
    by (simp only: sorted_wrt_map)
  then have "sorted_wrt (\<lambda>x y. sint (fst x) < sint (fst y)) (wire s @ mDeque (rpcsub s))"
    by (rule sorted_wrt_mono_rel [rotated]) (simp only: eq of_nat_less_iff)
  then show ?thesis by (simp only: sorted_wrt_map)
qed

lemma sub_inv_distinct:
  assumes "sub_inv n s"
  shows "distinct (map fst (wire s @ mDeque (rpcsub s)))"
proof -
  from assms have "sorted_wrt (<) (map (\<lambda>ev. unat (fst ev)) (wire s @ mDeque (rpcsub s)))"
    by (simp add: sub_inv_def)
  then have "distinct (map (\<lambda>ev. unat (fst ev)) (wire s @ mDeque (rpcsub s)))"
    by (simp only: strict_sorted_iff)
  then have "distinct (map unat (map fst (wire s @ mDeque (rpcsub s))))"
    by (simp only: map_map comp_def)
  then show ?thesis by (simp only: distinct_map)
qed

lemma sendThread_drains:
  "fst (sendThread fromNetwork (r, w, lg)) = r\<lparr>mDeque := [], mSending := False\<rparr> \<and>
   fst (snd (sendThread fromNetwork (r, w, lg))) = w @ mDeque r"
proof (induction "mDeque r" arbitrary: r w lg)
  case Nil
  then have "mDeque r = []" by simp
  then show ?case
    by (subst sendThread.simps, subst (2) sendThread.simps)
      (simp add: sendThread_body_def del: sendThread.simps)
next
  case (Cons ev rest)
  then have dq: "mDeque r = ev # rest" by simp
  from Cons(1) [of "r\<lparr>mDeque := rest\<rparr>"]
  have ih: "fst (sendThread fromNetwork (r\<lparr>mDeque := rest\<rparr>, w', lg')) =
        r\<lparr>mDeque := [], mSending := False\<rparr> \<and>
      fst (snd (sendThread fromNetwork (r\<lparr>mDeque := rest\<rparr>, w', lg'))) = w' @ rest" for w' lg'
    by simp
  show ?case
    by (subst sendThread.simps, subst (2) sendThread.simps)
      (simp add: sendThread_body_def dq ih del: sendThread.simps)
qed

lemma last_retained: "xs \<noteq> [] \<Longrightarrow> last (retained cap xs) = last xs"
  by (simp add: retained_def)

lemma retained_Nil_iff: "retained cap xs = [] \<longleftrightarrow> xs = []"
  by (auto simp: retained_def)

lemma retained_two: "2 \<le> length xs \<Longrightarrow> retained 2 xs = [hd xs, last xs]"
proof (cases xs)
  case Nil
  then show "2 \<le> length xs \<Longrightarrow> ?thesis" by simp
next
  case (Cons a ys)
  assume "2 \<le> length xs"
  with Cons obtain b zs where "ys = b # zs" by (cases ys) auto
  with Cons show ?thesis by (cases zs) (simp_all add: retained_def)
qed

lemma stamped_replicate_ends:
  "stamped m (replicate (Suc n) v) \<noteq> [] \<and>
   hd (stamped m (replicate (Suc n) v)) = (m, v) \<and>
   last (stamped m (replicate (Suc n) v)) = (m + word_of_nat n, v)"
proof -
  have hd: "hd (stamped m (replicate (Suc n) v)) = (m, v)"
    by (simp add: stamped_def upt_conv_Cons del: upt_Suc)
  have "replicate (Suc n) v = replicate n v @ [v]"
    by (simp add: replicate_append_same)
  then have "stamped m (replicate (Suc n) v) = stamped m (replicate n v) @ [(m + word_of_nat n, v)]"
    by (simp only: stamped_snoc length_replicate)
  with hd show ?thesis by simp
qed

lemma drain_tail:
  assumes "mDeque (rpcsub s1) = [a, b]" "mSending (rpcsub s1)" "subJobs s1 = [j]"
    "draining s1 = 0" "wire s1 = []"
  shows "wire_seqs (sub_run 2 this
            [WorkerStart, Iterate Delivered, Iterate Delivered, Push v False, Iterate Delivered] s1)
         = Some [sint (fst a), sint (fst b), sint (mSeq (rpcsub s1))]"
  using assms
  by (simp add: wire_seqs_def sendThread_body_def send_def pop_back_def addJob_def Let_def)


lemma pushes_append: "pushes (xs @ ys) = pushes xs + pushes ys"
  by (simp add: pushes_def)

text \<open>
  C9, as the spec states it: the n-th event ever pushed to a subscriber is stamped n,
  and numbers are never reused. The counter is an \<open>int\<close>. The event pushed as number
  2147483648 to a new subscriber is stamped -2147483648.
\<close>

theorem nth_stamp_counterexample:
  "newest_seq (sub_run 2 0 (replicate 2147483648 (Push ''e'' False)) (sub_init new_sub))
     = Some (- 2147483648)"
proof -
  have rep: "replicate 2147483648 (Push ''e'' False)
      = map (\<lambda>v. Push v False) (replicate (Suc 2147483647) ''e'')"
    by (simp only: map_replicate) simp
  from push_only_run [of 2 "sub_init new_sub" 0 False "replicate (Suc 2147483647) ''e''"]
  obtain s' where run: "sub_run 2 0 (map (\<lambda>v. Push v False) (replicate (Suc 2147483647) ''e''))
        (sub_init new_sub) = Inr s'"
    and dq: "mDeque (rpcsub s')
        = retained 2 (stamped (mSeq (rpcsub (sub_init new_sub))) (replicate (Suc 2147483647) ''e''))"
    by (auto simp: sub_init_def new_sub_def)
  have m: "mSeq (rpcsub (sub_init new_sub)) = (1 :: cint)"
    by (simp add: sub_init_def new_sub_def)
  from stamped_replicate_ends [of 1 2147483647 "''e''"]
  have ne: "stamped 1 (replicate (Suc 2147483647) ''e'') \<noteq> []"
    and la: "last (stamped 1 (replicate (Suc 2147483647) ''e'')) = (1 + word_of_nat 2147483647, ''e'')"
    by blast+
  from ne have "mDeque (rpcsub s') \<noteq> []"
    unfolding dq m by (simp only: retained_Nil_iff not_False_eq_True)
  moreover have "last (mDeque (rpcsub s')) = (1 + word_of_nat 2147483647, ''e'')"
    unfolding dq m using last_retained [OF ne, of 2] la by simp
  moreover have "sint (1 + word_of_nat 2147483647 :: cint) = - 2147483648"
    by simp
  ultimately show ?thesis
    unfolding rep run by (simp add: newest_seq_def)
qed

text \<open>
  C9, amended: the counter starts at 1 and every push increases it by exactly one
  (in 32-bit arithmetic) and stamps the pushed entry with the value before the increase,
  also when another entry is dropped to make room; so, whatever is delivered or dropped
  in between, the n-th event ever pushed to a subscriber is stamped n as long as n is
  below 2 ^ 31, and up to there no sequence number delivered or queued is used twice.
\<close>

theorem sequence_numbers:
  "(RPCSub_ctor parseUrl strUrl usr pwd = Inr r \<longrightarrow> mSeq r = 1) \<and>
   (0 < cap \<longrightarrow>
      (\<exists>r' q' lg'. send cap this v b (st, q, lg) = Inr (r', q', lg') \<and>
         mSeq r' = mSeq st + 1 \<and> last (mDeque r') = (mSeq st, v))) \<and>
   (RPCSub_ctor parseUrl strUrl usr pwd = Inr r \<and> 0 < cap \<and> Suc (pushes evs) < 2 ^ 31 \<longrightarrow>
      newest_seq (sub_run cap this (evs @ [Push v b]) (sub_init r))
        = Some (int (Suc (pushes evs))) \<and>
      (\<exists>s. sub_run cap this (evs @ [Push v b]) (sub_init r) = Inr s \<and>
           distinct (map fst (wire s @ mDeque (rpcsub s)))))"
proof (intro conjI impI)
  assume "RPCSub_ctor parseUrl strUrl usr pwd = Inr r"
  then show "mSeq r = 1" by (simp add: ctor_fresh)
next
  assume cap: "0 < cap"
  from send_Inr [OF cap, of this v b st q lg]
  show "\<exists>r' q' lg'. send cap this v b (st, q, lg) = Inr (r', q', lg') \<and>
         mSeq r' = mSeq st + 1 \<and> last (mDeque r') = (mSeq st, v)"
    by auto
next
  assume a: "RPCSub_ctor parseUrl strUrl usr pwd = Inr r \<and> 0 < cap \<and> Suc (pushes evs) < 2 ^ 31"
  then have cap: "0 < cap" and bound: "Suc (pushes evs) < 2 ^ 31" by simp_all
  from a have "RPCSub_ctor parseUrl strUrl usr pwd = Inr r" by simp
  from ctor_fresh [OF this] have "sub_inv 0 (sub_init r)"
    by (intro sub_inv_init) simp_all
  moreover from bound have "0 + pushes evs < 2 ^ 31" by simp
  ultimately obtain s1 where run1: "sub_run cap this evs (sub_init r) = Inr s1"
    and inv1: "sub_inv (0 + pushes evs) s1"
    using sub_inv_run [OF cap, of 0 "sub_init r" evs this] by blast
  from inv1 have inv1': "sub_inv (pushes evs) s1" by simp
  from sub_inv_Push [OF cap inv1' bound, of this v b]
  obtain s2 where step: "sub_step cap this (Push v b) s1 = Inr s2"
    and inv2: "sub_inv (Suc (pushes evs)) s2"
    and ne: "mDeque (rpcsub s2) \<noteq> []"
    and la: "last (mDeque (rpcsub s2)) = (word_of_nat (Suc (pushes evs)), v)"
    by blast
  have run: "sub_run cap this (evs @ [Push v b]) (sub_init r) = Inr s2"
    using run1 step by (simp add: sub_run_append)
  from bound have "Suc (pushes evs) < (2 :: nat) ^ 32" by simp
  then have "unat (word_of_nat (Suc (pushes evs)) :: cint) = Suc (pushes evs)"
    by (simp only: unat_of_nat len_of_numeral_defs) simp
  with bound have "sint (word_of_nat (Suc (pushes evs)) :: cint) = int (Suc (pushes evs))"
    using sint_small [of "word_of_nat (Suc (pushes evs))"] by simp
  with ne la show "newest_seq (sub_run cap this (evs @ [Push v b]) (sub_init r))
        = Some (int (Suc (pushes evs)))"
    unfolding run by (simp add: newest_seq_def)
  from sub_inv_distinct [OF inv2] run
  show "\<exists>s. sub_run cap this (evs @ [Push v b]) (sub_init r) = Inr s \<and>
           distinct (map fst (wire s @ mDeque (rpcsub s)))"
    by blast
qed

theorem sequence_numbers_witness:
  "RPCSub_ctor (\<lambda>u. Some (''http'', ''10.0.0.1'', - 1, ''/'')) ''http://10.0.0.1/''
     ''alice'' ''secret'' = Inr new_sub \<and>
   mSeq new_sub = 1 \<and>
   newest_seq (sub_run 2 0
      [Push ''a'' False, WorkerStart, Push ''b'' False, Push ''c'' False, Iterate Delivered,
       Push ''d'' False] (sub_init new_sub)) = Some 4"
  using
    sequence_numbers [of "\<lambda>u. Some (''http'', ''10.0.0.1'', - 1, ''/'')" "''http://10.0.0.1/''"
      "''alice''" "''secret''" new_sub 2 0 "''d''" False new_sub "[]" "[]"
      "[Push ''a'' False, WorkerStart, Push ''b'' False, Push ''c'' False, Iterate Delivered]"]
    new_sub_constructed
  by (simp add: pushes_def)

text \<open>
  C7, as the spec states it: whatever the queue holds, the drain worker delivers in
  strictly increasing order of sequence number. With a capacity of 2, a new subscriber
  that is pushed 2147483647 events before its worker starts holds the entries numbered 1
  and 2147483647; the worker delivers both, one more event is pushed and delivered, and
  the numbers on the wire are 1, 2147483647, -2147483648.
\<close>

theorem delivery_order_counterexample:
  "wire_seqs (sub_run 2 0
      (replicate 2147483647 (Push ''e'' False) @
       [WorkerStart, Iterate Delivered, Iterate Delivered, Push ''e'' False, Iterate Delivered])
      (sub_init new_sub))
     = Some [1, 2147483647, - 2147483648]"
proof -
  have rep: "replicate 2147483647 (Push ''e'' False)
      = map (\<lambda>v. Push v False) (replicate (Suc 2147483646) ''e'')"
    by (simp only: map_replicate) simp
  from push_only_run [of 2 "sub_init new_sub" 0 False "replicate (Suc 2147483646) ''e''"]
  obtain s1 where run: "sub_run 2 0 (map (\<lambda>v. Push v False) (replicate (Suc 2147483646) ''e''))
        (sub_init new_sub) = Inr s1"
    and dq: "mDeque (rpcsub s1) = retained 2 (stamped 1 (replicate (Suc 2147483646) ''e''))"
    and sq: "mSeq (rpcsub s1) = 1 + word_of_nat (length (replicate (Suc 2147483646) ''e''))"
    and w: "wire s1 = []" and d: "draining s1 = 0"
    and snd: "mSending (rpcsub s1)"
    and jobs: "subJobs s1 = [(jtCLIENT, ''RPCSub::sendThread'', 0)]"
    by (auto simp: sub_init_def new_sub_def)
  from stamped_replicate_ends [of 1 2147483646 "''e''"]
  have hd: "hd (stamped 1 (replicate (Suc 2147483646) ''e'')) = (1, ''e'')"
    and la: "last (stamped 1 (replicate (Suc 2147483646) ''e''))
        = (1 + word_of_nat 2147483646, ''e'')"
    by blast+
  have "2 \<le> length (stamped (1 :: cint) (replicate (Suc 2147483646) ''e''))"
    by (simp add: length_stamped)
  from retained_two [OF this] hd la
  have dq': "mDeque (rpcsub s1) = [(1, ''e''), (1 + word_of_nat 2147483646, ''e'')]"
    unfolding dq by simp
  have sq': "mSeq (rpcsub s1) = 1 + word_of_nat 2147483647"
    unfolding sq by (simp only: length_replicate) simp
  from drain_tail [OF dq' snd jobs d w, of 0 "''e''"]
  have "wire_seqs (sub_run 2 0
      [WorkerStart, Iterate Delivered, Iterate Delivered, Push ''e'' False, Iterate Delivered] s1)
    = Some [sint (1 :: cint), sint (1 + word_of_nat 2147483646 :: cint),
            sint (1 + word_of_nat 2147483647 :: cint)]"
    unfolding sq' by simp
  moreover have "sint (1 + word_of_nat 2147483646 :: cint) = 2147483647"
    and "sint (1 + word_of_nat 2147483647 :: cint) = - 2147483648"
    by simp_all
  ultimately show ?thesis
    unfolding rep sub_run_append run by simp
qed

text \<open>
  C7, amended: as long as fewer than 2 ^ 31 events have been pushed to the subscriber,
  the events handed to the network, failed attempts included, carry strictly
  increasing sequence numbers, none twice, and every queued entry has a larger number
  than all of them; a delivery that throws is logged and leaves the worker in its loop,
  with the failed entry removed from the queue and not put back; and a worker that runs
  undisturbed hands every queued entry to the network once, in queue order, whatever
  fails, and leaves the queue empty.
\<close>

theorem delivery_order:
  "(RPCSub_ctor parseUrl strUrl usr pwd = Inr r \<and> 0 < cap \<and> pushes evs < 2 ^ 31 \<longrightarrow>
      (\<exists>s. sub_run cap this evs (sub_init r) = Inr s \<and>
           sorted_wrt (<) (map (\<lambda>ev. sint (fst ev)) (wire s)) \<and>
           distinct (map fst (wire s)) \<and>
           (\<forall>d \<in> set (wire s). \<forall>ev \<in> set (mDeque (rpcsub s)). sint (fst d) < sint (fst ev)))) \<and>
   (0 < draining st \<and> mDeque (rpcsub st) = ev # rest \<longrightarrow>
      sub_step cap this (Iterate (Threw what)) st =
        Inr (st\<lparr>rpcsub := (rpcsub st)\<lparr>mDeque := rest\<rparr>,
                wire := wire st @ [ev],
                sublog := sublog st @
                  [(lsINFO, SubCall (mIp (rpcsub st))), (lsINFO, SubException what)]\<rparr>)) \<and>
   fst (sendThread fromNetwork (r0, w, lg)) = r0\<lparr>mDeque := [], mSending := False\<rparr> \<and>
   fst (snd (sendThread fromNetwork (r0, w, lg))) = w @ mDeque r0"
proof (intro conjI impI)
  assume a: "RPCSub_ctor parseUrl strUrl usr pwd = Inr r \<and> 0 < cap \<and> pushes evs < 2 ^ 31"
  then have cap: "0 < cap" and bound: "pushes evs < 2 ^ 31" by simp_all
  from a have "RPCSub_ctor parseUrl strUrl usr pwd = Inr r" by simp
  from ctor_fresh [OF this] have "sub_inv 0 (sub_init r)"
    by (intro sub_inv_init) simp_all
  moreover from bound have "0 + pushes evs < 2 ^ 31" by simp
  ultimately obtain s where run: "sub_run cap this evs (sub_init r) = Inr s"
    and inv0: "sub_inv (0 + pushes evs) s"
    using sub_inv_run [OF cap, of 0 "sub_init r" evs this] by blast
  from inv0 have inv: "sub_inv (pushes evs) s" by simp
  from sub_inv_sint [OF inv bound]
  have srt: "sorted_wrt (<) (map (\<lambda>ev. sint (fst ev)) (wire s @ mDeque (rpcsub s)))" .
  then have "sorted_wrt (<) (map (\<lambda>ev. sint (fst ev)) (wire s))"
    and "\<forall>d \<in> set (wire s). \<forall>ev \<in> set (mDeque (rpcsub s)). sint (fst d) < sint (fst ev)"
    by (simp_all add: sorted_wrt_append)
  moreover from sub_inv_distinct [OF inv] have "distinct (map fst (wire s))"
    by simp
  ultimately show "\<exists>s. sub_run cap this evs (sub_init r) = Inr s \<and>
           sorted_wrt (<) (map (\<lambda>ev. sint (fst ev)) (wire s)) \<and>
           distinct (map fst (wire s)) \<and>
           (\<forall>d \<in> set (wire s). \<forall>ev \<in> set (mDeque (rpcsub s)). sint (fst d) < sint (fst ev))"
    using run by blast
next
  assume "0 < draining st \<and> mDeque (rpcsub st) = ev # rest"
  then show "sub_step cap this (Iterate (Threw what)) st =
        Inr (st\<lparr>rpcsub := (rpcsub st)\<lparr>mDeque := rest\<rparr>,
                wire := wire st @ [ev],
                sublog := sublog st @
                  [(lsINFO, SubCall (mIp (rpcsub st))), (lsINFO, SubException what)]\<rparr>)"
    by (simp add: sendThread_body_def)
next
  show "fst (sendThread fromNetwork (r0, w, lg)) = r0\<lparr>mDeque := [], mSending := False\<rparr>"
    by (simp only: sendThread_drains)
next
  show "fst (snd (sendThread fromNetwork (r0, w, lg))) = w @ mDeque r0"
    by (simp only: sendThread_drains)
qed


theorem delivery_order_witness:
  "RPCSub_ctor (\<lambda>u. Some (''http'', ''10.0.0.1'', - 1, ''/'')) ''http://10.0.0.1/''
     ''alice'' ''secret'' = Inr new_sub \<and>
   wire_seqs (sub_run 2 0
      [Push ''a'' False, WorkerStart, Push ''b'' False, Iterate (Threw ''timeout''),
       Push ''c'' False, Iterate Delivered, Iterate Delivered] (sub_init new_sub))
     = Some [1, 2, 3] \<and>
   sub_step 2 0 (Iterate (Threw ''timeout''))
      \<lparr>rpcsub = new_sub\<lparr>mDeque := [(1, ''a''), (2, ''b'')], mSeq := 3, mSending := True\<rparr>,
       subJobs = [], draining = 1, wire = [], sublog = []\<rparr>
     = Inr \<lparr>rpcsub = new_sub\<lparr>mDeque := [(2, ''b'')], mSeq := 3, mSending := True\<rparr>,
            subJobs = [], draining = 1, wire = [(1, ''a'')],
            sublog = [(lsINFO, SubCall ''10.0.0.1''), (lsINFO, SubException ''timeout'')]\<rparr> \<and>
   fst (snd (sendThread (\<lambda>ev. if fst ev = 1 then Threw ''timeout'' else Delivered)
      (new_sub\<lparr>mDeque := [(1, ''a''), (2, ''b'')], mSeq := 3, mSending := True\<rparr>, [], [])))
     = [(1, ''a''), (2, ''b'')]"
  using
    delivery_order [of "\<lambda>u. Some (''http'', ''10.0.0.1'', - 1, ''/'')" "''http://10.0.0.1/''"
      "''alice''" "''secret''" new_sub 2
      "[Push ''a'' False, WorkerStart, Push ''b'' False, Iterate (Threw ''timeout''),
        Push ''c'' False, Iterate Delivered, Iterate Delivered]" 0
      "\<lparr>rpcsub = new_sub\<lparr>mDeque := [(1, ''a''), (2, ''b'')], mSeq := 3, mSending := True\<rparr>,
        subJobs = [], draining = 1, wire = [], sublog = []\<rparr>"
      "(1, ''a'')" "[(2, ''b'')]" "''timeout''"
      "\<lambda>ev. if fst ev = 1 then Threw ''timeout'' else Delivered"
      "new_sub\<lparr>mDeque := [(1, ''a''), (2, ''b'')], mSeq := 3, mSending := True\<rparr>" "[]" "[]"]
    new_sub_constructed
  by (simp add: pushes_def wire_seqs_def sub_init_def new_sub_def send_def pop_back_def
      addJob_def Let_def sendThread_body_def)

end
